theory Spec2Isabelle
  imports
    Complex_Main
    "HOL-Library.Char_ord"
    "HOL-Library.List_Lexorder"
    "HOL-Library.Product_Lexorder"
begin

section \<open>Python values the scripts work on\<close>

text \<open>
  The scripts are Python. Exceptions are values of \<open>py_error\<close>; a function that can
  raise returns \<open>py_error + 'a\<close> with \<open>Inl\<close> for the exception.
\<close>

datatype py_error = ValueError | TypeError | KeyError | IndexError

subsection \<open>Strings: \<open>str.lower\<close>, \<open>in\<close>, \<open>split\<close>\<close>

text \<open>
  A Python \<open>str\<close> is a \<open>string\<close>; comparison of strings (\<open>sorted\<close> on dictionary keys)
  is the lexicographic order on character codes, as given by \<open>List_Lexorder\<close> over
  \<open>Char_ord\<close>. \<open>lower\<close> is \<open>str.lower\<close> on ASCII letters.
\<close>

definition lower_char :: "char \<Rightarrow> char" where
  "lower_char c =
     (case map_of (zip ''ABCDEFGHIJKLMNOPQRSTUVWXYZ'' ''abcdefghijklmnopqrstuvwxyz'') c of
        None \<Rightarrow> c
      | Some l \<Rightarrow> l)"

definition lower :: "string \<Rightarrow> string" where
  "lower s = map lower_char s"

fun startswith :: "string \<Rightarrow> string \<Rightarrow> bool" where
  "startswith s [] = True"
| "startswith [] (p # ps) = False"
| "startswith (c # cs) (p # ps) = (c = p \<and> startswith cs ps)"

text \<open>\<open>py_in needle s\<close> is the substring test \<open>needle in s\<close>.\<close>

fun py_in :: "string \<Rightarrow> string \<Rightarrow> bool" where
  "py_in needle [] = (needle = [])"
| "py_in needle (c # cs) = (startswith (c # cs) needle \<or> py_in needle cs)"

text \<open>\<open>split_T_0 ts\<close> is \<open>ts.split('T')[0]\<close>: the text before the first \<open>T\<close>.\<close>

definition split_T_0 :: "string \<Rightarrow> string" where
  "split_T_0 ts = takeWhile (\<lambda>c. c \<noteq> CHR ''T'') ts"

subsection \<open>Calendar dates\<close>

text \<open>
  A \<open>datetime\<close> at midnight, or its \<open>.date()\<close>, is the triple (year, month, day). Python
  compares dates field by field, which is the lexicographic order of \<open>Product_Lexorder\<close>,
  and subtracts them through their proleptic Gregorian ordinals (\<open>toordinal\<close>).
\<close>

type_synonym date = "nat \<times> nat \<times> nat"

definition is_leap :: "nat \<Rightarrow> bool" where
  "is_leap y = (y mod 4 = 0 \<and> (y mod 100 \<noteq> 0 \<or> y mod 400 = 0))"

definition days_in_month :: "nat \<Rightarrow> nat \<Rightarrow> nat" where
  "days_in_month y m =
     (if m = 2 then (if is_leap y then 29 else 28)
      else if m = 4 \<or> m = 6 \<or> m = 9 \<or> m = 11 then 30 else 31)"

definition days_before_year :: "nat \<Rightarrow> int" where
  "days_before_year y =
     (let p = int y - 1 in p * 365 + p div 4 - p div 100 + p div 400)"

definition days_before_month :: "nat \<Rightarrow> nat \<Rightarrow> int" where
  "days_before_month y m =
     int ([0, 0, 31, 59, 90, 120, 151, 181, 212, 243, 273, 304, 334] ! m)
       + (if m > 2 \<and> is_leap y then 1 else 0)"

fun toordinal :: "date \<Rightarrow> int" where
  "toordinal (y, m, d) = days_before_year y + days_before_month y m + int d"

text \<open>\<open>days_between a b\<close> is \<open>(b - a).days\<close>.\<close>

definition days_between :: "date \<Rightarrow> date \<Rightarrow> int" where
  "days_between a b = toordinal b - toordinal a"

definition is_digit :: "char \<Rightarrow> bool" where
  "is_digit c = (CHR ''0'' \<le> c \<and> c \<le> CHR ''9'')"

definition digit_val :: "char \<Rightarrow> nat" where
  "digit_val c = of_char c - 48"

text \<open>
  \<open>strptime_ymd s\<close> is \<open>datetime.strptime(s, "%Y-%m-%d")\<close> on the zero-padded form
  \<open>YYYY-MM-DD\<close> that \<open>strftime_ymd\<close> writes and that ISO-8601 timestamps start with; a
  field that is not a calendar date raises \<open>ValueError\<close>. CPython also accepts a month or
  a day written with one digit; such text is no ISO-8601 date and is rejected here, so
  the results below speak about series whose keys are in the zero-padded form.
\<close>

fun strptime_ymd :: "string \<Rightarrow> py_error + date" where
  "strptime_ymd [y1, y2, y3, y4, s1, m1, m2, s2, d1, d2] =
     (if is_digit y1 \<and> is_digit y2 \<and> is_digit y3 \<and> is_digit y4 \<and> s1 = CHR ''-''
         \<and> is_digit m1 \<and> is_digit m2 \<and> s2 = CHR ''-'' \<and> is_digit d1 \<and> is_digit d2
      then
        (let y = 1000 * digit_val y1 + 100 * digit_val y2 + 10 * digit_val y3 + digit_val y4;
             m = 10 * digit_val m1 + digit_val m2;
             d = 10 * digit_val d1 + digit_val d2
         in if 1 \<le> y \<and> 1 \<le> m \<and> m \<le> 12 \<and> 1 \<le> d \<and> d \<le> days_in_month y m
            then Inr (y, m, d) else Inl ValueError)
      else Inl ValueError)"
| "strptime_ymd _ = Inl ValueError"

definition digit_char :: "nat \<Rightarrow> char" where
  "digit_char n = ''0123456789'' ! (n mod 10)"

text \<open>\<open>strftime_ymd d\<close> is \<open>d.strftime("%Y-%m-%d")\<close>.\<close>

fun strftime_ymd :: "date \<Rightarrow> string" where
  "strftime_ymd (y, m, d) =
     [digit_char (y div 1000), digit_char (y div 100), digit_char (y div 10), digit_char y,
      CHR ''-'', digit_char (m div 10), digit_char m,
      CHR ''-'', digit_char (d div 10), digit_char d]"

section \<open>Transaction reconstruction (analyze\_asset\_buys\_sells.py)\<close>

definition REFERENCE_END_DATE :: date where
  "REFERENCE_END_DATE = (2025, 11, 29)"

definition parse_timestamp :: "string \<Rightarrow> py_error + date" where
  "parse_timestamp ts = strptime_ymd (split_T_0 ts)"

text \<open>A transaction is the dictionary \<open>{"action": ..., "date": ...}\<close>.\<close>

record transaction =
  action :: string
  date :: string

definition bought :: "date \<Rightarrow> transaction" where
  "bought d = \<lparr>action = ''bought'', date = strftime_ymd d\<rparr>"

definition sold :: "date \<Rightarrow> transaction" where
  "sold d = \<lparr>action = ''sold'', date = strftime_ymd d\<rparr>"

text \<open>The list comprehension \<open>[parse_timestamp(ts) for ts in keys]\<close>: the first key that
  does not parse raises.\<close>

fun parse_all :: "string list \<Rightarrow> py_error + date list" where
  "parse_all [] = Inr []"
| "parse_all (k # ks) =
     (case parse_timestamp k of
        Inl e \<Rightarrow> Inl e
      | Inr d \<Rightarrow> (case parse_all ks of Inl e \<Rightarrow> Inl e | Inr ds \<Rightarrow> Inr (d # ds)))"

text \<open>The body of \<open>for i in range(len(dates) - 1)\<close>: what iteration \<open>i\<close> appends.\<close>

definition gap_step :: "date list \<Rightarrow> nat \<Rightarrow> transaction list" where
  "gap_step dates i =
     (let current_date = dates ! i;
          next_date = dates ! (i + 1);
          days_diff = days_between current_date next_date
      in if days_diff > 1 then [sold current_date, bought next_date] else [])"

text \<open>A time series is a dictionary from timestamp strings to values, kept as the list
  of its items in insertion order.\<close>

definition find_buy_sell_dates :: "(string \<times> 'v) list \<Rightarrow> py_error + transaction list" where
  "find_buy_sell_dates time_series =
     (if time_series = [] then Inr []
      else case parse_all (map fst time_series) of
        Inl e \<Rightarrow> Inl e
      | Inr parsed \<Rightarrow>
          (let dates = sort parsed in
           if dates = [] then Inr []
           else
             (let first_date = hd dates;
                  last_date = last dates;
                  transactions = [bought first_date]
                    @ concat (map (gap_step dates) [0 ..< length dates - 1])
              in Inr (if last_date \<noteq> REFERENCE_END_DATE
                      then transactions @ [sold last_date] else transactions))))"

section \<open>Valuation engine (comprehensive\_asset\_analysis.py)\<close>

text \<open>
  Amounts are the \<open>float\<close>s of the NAV series. The engine only uses \<open>0.0\<close>, \<open>+\<close>, \<open>-\<close>
  and \<open>>\<close> on them, so the amount type \<open>'n\<close> is left open: what is proved holds for
  any arithmetic, IEEE doubles included.
\<close>

text \<open>\<open>dict_get d k dflt\<close> is \<open>d.get(k, dflt)\<close>.\<close>

definition dict_get :: "('k \<times> 'v) list \<Rightarrow> 'k \<Rightarrow> 'v \<Rightarrow> 'v" where
  "dict_get d k dflt = (case map_of d k of None \<Rightarrow> dflt | Some v \<Rightarrow> v)"

text \<open>The \<open>for ts_key in sorted_keys\<close> loop of \<open>find_timestamp_key\<close>, with its
  \<open>return\<close> on an exact match and its \<open>break\<close> past the target.\<close>

fun find_loop :: "date \<Rightarrow> string option \<Rightarrow> string list \<Rightarrow> py_error + string option" where
  "find_loop target_date best_match [] = Inr best_match"
| "find_loop target_date best_match (ts_key # sorted_keys) =
     (case parse_timestamp ts_key of
        Inl e \<Rightarrow> Inl e
      | Inr ts_date \<Rightarrow>
          if ts_date = target_date then Inr (Some ts_key)
          else
            (let best_match' = (if ts_date < target_date then Some ts_key else best_match)
             in if ts_date > target_date then Inr best_match'
                else find_loop target_date best_match' sorted_keys))"

definition find_timestamp_key :: "string \<Rightarrow> (string \<times> 'n) list \<Rightarrow> py_error + string option" where
  "find_timestamp_key date_str time_series =
     (case strptime_ymd date_str of
        Inl e \<Rightarrow> Inl e
      | Inr target_date \<Rightarrow> find_loop target_date None (sort (map fst time_series)))"

text \<open>\<open>nav_at nav ts\<close> is \<open>nav.get(ts, 0.0) if ts else 0.0\<close>: \<open>None\<close> and the empty
  string are falsy.\<close>

definition nav_at :: "(string \<times> 'n::zero) list \<Rightarrow> string option \<Rightarrow> 'n" where
  "nav_at nav ts =
     (case ts of None \<Rightarrow> 0 | Some k \<Rightarrow> if k = [] then 0 else dict_get nav k 0)"

record 'n transaction_detail =
  buy_date :: string
  sell_date :: string
  purchase_price :: 'n
  selling_price :: 'n
  buy_nav :: 'n
  sell_nav :: 'n
  profit :: 'n

text \<open>
  The tail of the \<open>bought\<close> branch, shared by both ways of finding the sell: profit
  from the two NAV values, purchase price, selling price and the appended record. It
  returns the new \<open>total_profit\<close> and \<open>transactions_detail\<close>. (\<open>sell_nav\<close> and
  \<open>buy_nav\<close> are never \<open>None\<close> where the source tests them.)
\<close>

definition settle ::
  "string \<Rightarrow> string \<Rightarrow> 'n \<Rightarrow> 'n \<Rightarrow> 'n option \<Rightarrow> 'n \<Rightarrow> 'n transaction_detail list
    \<Rightarrow> ('n::{zero,plus,minus,ord}) \<times> 'n transaction_detail list" where
  "settle buy_date' sell_date' buy_nav' sell_nav' purchase_price' total_profit details =
     (let profit' = sell_nav' - buy_nav';
          actual_purchase_price =
            (case purchase_price' of
               None \<Rightarrow> buy_nav'
             | Some p \<Rightarrow> if p > 0 then p else buy_nav');
          selling_price' = actual_purchase_price + profit'
      in (total_profit + profit',
          details @ [\<lparr>buy_date = buy_date', sell_date = sell_date',
                       purchase_price = actual_purchase_price,
                       selling_price = selling_price',
                       buy_nav = buy_nav', sell_nav = sell_nav', profit = profit'\<rparr>]))"

text \<open>
  The \<open>else\<close> branch that finds no sell: the last key of the sorted NAV keys, its date
  as text and its value. (\<open>[-1]\<close> on an empty list and \<open>nav[last_ts]\<close> on a missing key
  raise.)
\<close>

definition last_available :: "(string \<times> 'n) list \<Rightarrow> py_error + (string \<times> 'n)" where
  "last_available nav =
     (if sort (map fst nav) = [] then Inl IndexError
      else
        (let last_ts = last (sort (map fst nav)) in
         case parse_timestamp last_ts of
           Inl e \<Rightarrow> Inl e
         | Inr last_date \<Rightarrow>
             (case map_of nav last_ts of
                None \<Rightarrow> Inl KeyError
              | Some last_nav \<Rightarrow> Inr (strftime_ymd last_date, last_nav))))"

text \<open>The \<open>while i < len(transactions)\<close> loop; its state is \<open>i\<close>, \<open>total_profit\<close> and
  \<open>transactions_detail\<close>.\<close>

function calc_loop ::
  "transaction list \<Rightarrow> (string \<times> 'n) list \<Rightarrow> 'n option \<Rightarrow> nat \<Rightarrow> 'n
    \<Rightarrow> 'n transaction_detail list
    \<Rightarrow> py_error + (('n::{zero,plus,minus,ord}) \<times> 'n transaction_detail list)" where
  "calc_loop transactions nav pp i total_profit details =
     (if i < length transactions then
        (if action (transactions ! i) = ''bought'' then
           (case find_timestamp_key (date (transactions ! i)) nav of
              Inl e \<Rightarrow> Inl e
            | Inr buy_ts \<Rightarrow>
                if i + 1 < length transactions \<and> action (transactions ! (i + 1)) = ''sold''
                then
                  (case find_timestamp_key (date (transactions ! (i + 1))) nav of
                     Inl e \<Rightarrow> Inl e
                   | Inr sell_ts \<Rightarrow>
                       (case settle (date (transactions ! i)) (date (transactions ! (i + 1)))
                               (nav_at nav buy_ts) (nav_at nav sell_ts) pp total_profit details of
                          (total_profit', details') \<Rightarrow>
                            calc_loop transactions nav pp (i + 2) total_profit' details'))
                else
                  (case last_available nav of
                     Inl e \<Rightarrow> Inl e
                   | Inr (sell_date', sell_nav') \<Rightarrow>
                       (case settle (date (transactions ! i)) sell_date'
                               (nav_at nav buy_ts) sell_nav' pp total_profit details of
                          (total_profit', details') \<Rightarrow>
                            calc_loop transactions nav pp (i + 1) total_profit' details')))
         else calc_loop transactions nav pp (i + 1) total_profit details)
      else Inr (total_profit, details))"
  by pat_completeness auto
termination
  by (relation "measure (\<lambda>(transactions, nav, pp, i, total_profit, details).
        length transactions - i)") auto

record 'n profit_result =
  asset :: string
  total_profit :: 'n
  transactions_detail :: "'n transaction_detail list"
  error :: "string option"

definition calculate_profit_and_prices ::
  "string \<Rightarrow> transaction list \<Rightarrow> (string \<times> 'n) list \<Rightarrow> 'n option
    \<Rightarrow> py_error + ('n::{zero,plus,minus,ord}) profit_result" where
  "calculate_profit_and_prices asset_name transactions nav_time_series pp =
     (if nav_time_series = [] then
        Inr \<lparr>asset = asset_name, total_profit = 0, transactions_detail = [],
             error = Some ''No NAV time series found''\<rparr>
      else
        (case calc_loop transactions nav_time_series pp 0 0 [] of
           Inl e \<Rightarrow> Inl e
         | Inr (total_profit', details') \<Rightarrow>
             Inr \<lparr>asset = asset_name, total_profit = total_profit',
                  transactions_detail = details', error = None\<rparr>))"

section \<open>Report payloads: headers, cells and lines\<close>

text \<open>
  A JSON value as \<open>json.load\<close> returns it. A \<open>bool\<close> is an \<open>int\<close> for \<open>isinstance\<close>.
\<close>

datatype pyval =
    PNone
  | PBool bool
  | PInt int
  | PFloat real
  | PStr string
  | PList "pyval list"
  | PDict "(string \<times> pyval) list"

text \<open>\<open>is_number v\<close> is \<open>isinstance(v, (int, float))\<close>.\<close>

fun is_number :: "pyval \<Rightarrow> bool" where
  "is_number (PInt n) = True"
| "is_number (PFloat x) = True"
| "is_number (PBool b) = True"
| "is_number v = False"

text \<open>
  A cell is a bare value or a dictionary, of which the scripts read the keys
  \<open>rawValue\<close>, \<open>value\<close> and \<open>command\<close>; a key that is absent reads as \<open>None\<close>. A header
  is a dictionary with the optional texts \<open>name\<close> and \<open>command\<close>, or a bare string. A
  line has an optional \<open>name\<close>, its \<open>values\<close> and its \<open>subLines\<close> (absent: empty).
\<close>

datatype cell = Prim pyval | CellDict (rawValue: pyval) (cell_value: pyval) (command: "string option")

datatype header = HeaderDict (header_name: "string option") (header_command: "string option")
  | HeaderStr string

datatype line = Line "string option" "cell list" "line list"


fun line_values :: "line \<Rightarrow> cell list" where
  "line_values (Line n vs subs) = vs"





text \<open>\<open>dict_set d k v\<close> is the assignment \<open>d[k] = v\<close> on a dictionary kept as the list
  of its items: an existing key keeps its place, a new key goes last.\<close>

fun dict_set :: "('k \<times> 'v) list \<Rightarrow> 'k \<Rightarrow> 'v \<Rightarrow> ('k \<times> 'v) list" where
  "dict_set [] k v = [(k, v)]"
| "dict_set ((k', v') # d) k v = (if k' = k then (k, v) # d else (k', v') # dict_set d k v)"


text \<open>
  The test both scripts make on a \<open>rawValue\<close> dictionary: the first key, if there is
  one, is non-empty and contains \<open>T\<close>, and its value is a number.
\<close>

fun looks_like_time_series :: "(string \<times> pyval) list \<Rightarrow> bool" where
  "looks_like_time_series [] = False"
| "looks_like_time_series ((sample_key, v) # rest) =
     (sample_key \<noteq> [] \<and> py_in ''T'' sample_key \<and> is_number v)"

subsection \<open>analyze\_asset\_buys\_sells.py: \<open>extract_asset_time_series\<close>\<close>

fun first_time_series :: "cell list \<Rightarrow> (string \<times> pyval) list option" where
  "first_time_series [] = None"
| "first_time_series (CellDict (PDict raw_value) v cmd # rest) =
     (if looks_like_time_series raw_value then Some raw_value else first_time_series rest)"
| "first_time_series (c # rest) = first_time_series rest"

definition extract_asset_time_series :: "line \<Rightarrow> (string \<times> pyval) list option" where
  "extract_asset_time_series asset_data = first_time_series (line_values asset_data)"

subsection \<open>analyze\_volatility.py\<close>

text \<open>The lower-cased \<open>name\<close> and \<open>command\<close> of a header, as \<open>extract_volatility_index\<close>
  and \<open>extract_metrics_from_asset\<close> compute them.\<close>

fun header_name_cmd :: "header \<Rightarrow> string \<times> string" where
  "header_name_cmd (HeaderDict n c) =
     (lower (case n of None \<Rightarrow> [] | Some s \<Rightarrow> s), lower (case c of None \<Rightarrow> [] | Some s \<Rightarrow> s))"
| "header_name_cmd (HeaderStr s) = (lower s, lower s)"

fun volatility_index_from :: "nat \<Rightarrow> header list \<Rightarrow> nat option" where
  "volatility_index_from i [] = None"
| "volatility_index_from i (header # rest) =
     (case header_name_cmd header of
        (name, cmd) \<Rightarrow>
          if py_in ''volatility'' name \<or> py_in ''volatility'' cmd then Some i
          else volatility_index_from (Suc i) rest)"

definition extract_volatility_index :: "header list \<Rightarrow> nat option" where
  "extract_volatility_index headers = volatility_index_from 0 headers"



subsection \<open>comprehensive\_asset\_analysis.py: metrics of one line\<close>

text \<open>The body of \<open>for i, header in enumerate(headers)\<close>: four tests, each of which
  assigns \<open>metric_indices[...] = i\<close>.\<close>

definition index_step :: "nat \<Rightarrow> header \<Rightarrow> (string \<times> nat) list \<Rightarrow> (string \<times> nat) list" where
  "index_step i header metric_indices =
     (case header_name_cmd header of
        (name, cmd) \<Rightarrow>
          (let m1 = (if py_in ''volatility'' cmd \<or> py_in ''volatility'' name
                     then dict_set metric_indices ''volatility'' i else metric_indices);
               m2 = (if py_in ''interest'' cmd \<or> py_in ''interest'' name
                        \<or> py_in ''interest_rate'' cmd
                     then dict_set m1 ''interest_rate'' i else m1);
               m3 = (if py_in ''purchase'' cmd \<or> py_in ''purchase'' name
                        \<or> py_in ''buy'' cmd \<or> py_in ''buy'' name
                     then dict_set m2 ''purchase_price'' i else m2);
               m4 = (if (py_in ''price'' cmd \<or> py_in ''price'' name)
                        \<and> \<not> py_in ''purchase'' cmd \<and> \<not> py_in ''purchase'' name
                     then dict_set m3 ''price'' i else m3)
           in m4))"

fun index_loop :: "nat \<Rightarrow> header list \<Rightarrow> (string \<times> nat) list \<Rightarrow> (string \<times> nat) list" where
  "index_loop i [] metric_indices = metric_indices"
| "index_loop i (header # rest) metric_indices =
     index_loop (Suc i) rest (index_step i header metric_indices)"

definition find_metric_indices :: "header list \<Rightarrow> (string \<times> nat) list" where
  "find_metric_indices headers = index_loop 0 headers []"

text \<open>
  An entry of the \<open>metrics\<close> dictionary: a cell value under a metric name, or the
  dictionary of all time series under \<open>time_series\<close>, whose keys are cell commands and
  column numbers.
\<close>

datatype ts_key = CommandKey string | IndexKey nat






subsection \<open>comprehensive\_asset\_analysis.py: \<open>extract_all_assets_with_metrics\<close>\<close>





subsection \<open>analyze\_asset\_buys\_sells.py: \<open>process_assets\<close>\<close>








section \<open>The specification's own wording\<close>

text \<open>
  The transaction reconstructor as the specification words it. \<open>scan_pairs\<close> scans the
  consecutive pairs of a date list: a gap of more than one day gives \<open>sold\<close> at the
  earlier date and \<open>bought\<close> at the later one.
\<close>

fun scan_pairs :: "date list \<Rightarrow> transaction list" where
  "scan_pairs (earlier # later # rest) =
     (if days_between earlier later > 1 then [sold earlier, bought later] else [])
       @ scan_pairs (later # rest)"
| "scan_pairs _ = []"

text \<open>
  \<open>reconstruct series_dates referenceEndDate\<close>: sort the distinct calendar dates
  ascending; none gives no event; otherwise \<open>bought\<close> at the first date, the scan, and
  a closing \<open>sold\<close> at the last date when it is strictly before the reference end date,
  none when it equals it (and, by the second sentence of the specification, a closing
  \<open>sold\<close> whenever the last date is not the reference end date).
\<close>

definition reconstruct :: "date list \<Rightarrow> date \<Rightarrow> transaction list" where
  "reconstruct series_dates referenceEndDate =
     (case sort (remdups series_dates) of
        [] \<Rightarrow> []
      | first_date # others \<Rightarrow>
          (let last_date = last (first_date # others) in
           [bought first_date] @ scan_pairs (first_date # others)
             @ (if last_date < referenceEndDate then [sold last_date]
                else if last_date = referenceEndDate then []
                else [sold last_date])))"

text \<open>
  The pricing rule of the valuation engine for one detail record: the buy reference
  value comes from the nearest-past lookup at the buy date; the purchase price is the
  override when it is present and strictly positive, the buy reference value otherwise;
  profit is sell minus buy reference value; selling price is purchase price plus profit.
\<close>

definition priced_by_rule ::
  "(string \<times> 'n) list \<Rightarrow> 'n option \<Rightarrow> ('n::{zero,plus,minus,ord}) transaction_detail \<Rightarrow> bool" where
  "priced_by_rule nav pp d =
     ((\<exists>k. find_timestamp_key (buy_date d) nav = Inr k \<and> buy_nav d = nav_at nav k)
      \<and> purchase_price d = (case pp of None \<Rightarrow> buy_nav d
                               | Some p \<Rightarrow> if p > 0 then p else buy_nav d)
      \<and> profit d = sell_nav d - buy_nav d
      \<and> selling_price d = purchase_price d + profit d)"

text \<open>
  The pairing walk told on the list of the events still to come: the event at the head
  is the one the loop stands at. It is shown below to be what the \<open>while\<close> loop
  computes from position \<open>i\<close> on \<open>drop i transactions\<close>.
\<close>

fun pair_walk ::
  "transaction list \<Rightarrow> (string \<times> 'n) list \<Rightarrow> 'n option \<Rightarrow> 'n \<Rightarrow> 'n transaction_detail list
    \<Rightarrow> py_error + (('n::{zero,plus,minus,ord}) \<times> 'n transaction_detail list)" where
  "pair_walk [] nav pp t ds = Inr (t, ds)"
| "pair_walk (e # rest) nav pp t ds =
     (if action e = ''bought'' then
        (case find_timestamp_key (date e) nav of
           Inl x \<Rightarrow> Inl x
         | Inr buy_ts \<Rightarrow>
             (case rest of
                s # rest' \<Rightarrow>
                  if action s = ''sold'' then
                    (case find_timestamp_key (date s) nav of
                       Inl x \<Rightarrow> Inl x
                     | Inr sell_ts \<Rightarrow>
                         (case settle (date e) (date s) (nav_at nav buy_ts) (nav_at nav sell_ts)
                                 pp t ds of
                            (t', ds') \<Rightarrow> pair_walk rest' nav pp t' ds'))
                  else
                    (case last_available nav of
                       Inl x \<Rightarrow> Inl x
                     | Inr (sd, sn) \<Rightarrow>
                         (case settle (date e) sd (nav_at nav buy_ts) sn pp t ds of
                            (t', ds') \<Rightarrow> pair_walk rest nav pp t' ds'))
              | [] \<Rightarrow>
                  (case last_available nav of
                     Inl x \<Rightarrow> Inl x
                   | Inr (sd, sn) \<Rightarrow>
                       (case settle (date e) sd (nav_at nav buy_ts) sn pp t ds of
                          (t', ds') \<Rightarrow> pair_walk rest nav pp t' ds'))))
      else pair_walk rest nav pp t ds)"




text \<open>A cell that \<open>extract_asset_time_series\<close> takes for a time series.\<close>

fun is_time_series_cell :: "cell \<Rightarrow> bool" where
  "is_time_series_cell (CellDict (PDict raw_value) v cmd) = looks_like_time_series raw_value"
| "is_time_series_cell c = False"

text \<open>The calendar date of a key that parses.\<close>

definition key_date :: "string \<Rightarrow> date" where
  "key_date k = (case parse_timestamp k of Inr d \<Rightarrow> d | Inl e \<Rightarrow> (0, 0, 0))"

text \<open>
  The pairing rule of the valuation engine in the specification's words, by position
  in the event list: \<open>bought_indices\<close> are the positions of the \<open>bought\<close> events;
  \<open>sold_follows ts i\<close> says that a \<open>sold\<close> event immediately follows position \<open>i\<close>;
  \<open>events_used ts i\<close> are the positions that the pair of the \<open>bought\<close> event at \<open>i\<close>
  uses; \<open>ref_value nav d\<close> is the NAV reference value at the date \<open>d\<close>.
\<close>

definition bought_indices :: "transaction list \<Rightarrow> nat list" where
  "bought_indices ts = filter (\<lambda>i. action (ts ! i) = ''bought'') [0 ..< length ts]"

definition sold_follows :: "transaction list \<Rightarrow> nat \<Rightarrow> bool" where
  "sold_follows ts i = (i + 1 < length ts \<and> action (ts ! (i + 1)) = ''sold'')"

definition events_used :: "transaction list \<Rightarrow> nat \<Rightarrow> nat list" where
  "events_used ts i = (if sold_follows ts i then [i, i + 1] else [i])"

definition ref_value :: "(string \<times> 'n::zero) list \<Rightarrow> string \<Rightarrow> 'n" where
  "ref_value nav date_str =
     (case find_timestamp_key date_str nav of Inr k \<Rightarrow> nav_at nav k | Inl e \<Rightarrow> 0)"

text \<open>The detail record that \<open>settle\<close> appends, and the one of the pair at position
  \<open>i\<close> when the last available NAV entry is \<open>(sd, sn)\<close>.\<close>

definition make_detail ::
  "string \<Rightarrow> string \<Rightarrow> 'n \<Rightarrow> 'n \<Rightarrow> 'n option \<Rightarrow> ('n::{zero,plus,minus,ord}) transaction_detail" where
  "make_detail b s bn sn pp =
     \<lparr>buy_date = b, sell_date = s,
      purchase_price = (case pp of None \<Rightarrow> bn | Some p \<Rightarrow> if p > 0 then p else bn),
      selling_price = (case pp of None \<Rightarrow> bn | Some p \<Rightarrow> if p > 0 then p else bn) + (sn - bn),
      buy_nav = bn, sell_nav = sn, profit = sn - bn\<rparr>"

definition detail_at ::
  "transaction list \<Rightarrow> (string \<times> 'n) list \<Rightarrow> 'n option \<Rightarrow> string \<Rightarrow> 'n \<Rightarrow> nat
    \<Rightarrow> ('n::{zero,plus,minus,ord}) transaction_detail" where
  "detail_at ts nav pp sd sn i =
     make_detail (date (ts ! i))
       (if sold_follows ts i then date (ts ! (i + 1)) else sd)
       (ref_value nav (date (ts ! i)))
       (if sold_follows ts i then ref_value nav (date (ts ! (i + 1))) else sn) pp"

section \<open>Transaction reconstruction follows the specified algorithm\<close>

lemma gap_step_Cons: "gap_step (x # xs) (Suc i) = gap_step xs i"
  by (simp add: gap_step_def)

lemma gap_loop_scan_pairs:
  "concat (map (gap_step dates) [0 ..< length dates - 1]) = scan_pairs dates"
proof (induction dates rule: scan_pairs.induct)
  case (1 earlier later rest)
  have "[0 ..< length (earlier # later # rest) - 1]
      = 0 # map Suc [0 ..< length (later # rest) - 1]"
    by (simp add: upt_conv_Cons map_Suc_upt del: upt_Suc)
  then show ?case using 1
    by (simp add: gap_step_Cons comp_def del: upt_Suc) (simp add: gap_step_def)
qed simp_all

lemma days_between_self: "days_between d d = 0"
  by (simp add: days_between_def)

lemma scan_pairs_remdups_adj: "scan_pairs (remdups_adj ds) = scan_pairs ds"
proof (induction ds rule: remdups_adj.induct)
  case (3 x y xs)
  obtain zs where zs: "remdups_adj (y # xs) = y # zs"
    by (metis remdups_adj_Cons_alt)
  show ?case
  proof (cases "x = y")
    case True
    with 3 show ?thesis by (simp add: days_between_self)
  next
    case False
    with 3 have "scan_pairs (remdups_adj (y # xs)) = scan_pairs (y # xs)" by simp
    with False zs show ?thesis by simp
  qed
qed simp_all

lemma distinct_remdups_adj_sorted: "sorted xs \<Longrightarrow> distinct (remdups_adj xs)"
proof (induction xs rule: remdups_adj.induct)
  case (3 x y xs)
  then show ?case by (cases "x = y") auto
qed simp_all

lemma sort_remdups_adj: "sort (remdups (ds::date list)) = remdups_adj (sort ds)"
  by (rule sorted_distinct_set_unique) (simp_all add: distinct_remdups_adj_sorted)

text \<open>
  C1. On a series whose keys all parse (to the dates \<open>ds\<close>, in key order),
  \<open>find_buy_sell_dates\<close> returns exactly the events of the specified algorithm run on
  those dates with the reference end date 2025-11-29: distinct dates sorted ascending,
  \<open>bought\<close> at the first, \<open>sold\<close>/\<open>bought\<close> around every gap of more than one day, a
  closing \<open>sold\<close> when the last date is before the reference end date and none when it
  equals it; the empty series gives no event.
\<close>

theorem find_buy_sell_dates_reconstruct:
  assumes "parse_all (map fst time_series) = Inr ds"
  shows "find_buy_sell_dates time_series = Inr (reconstruct ds REFERENCE_END_DATE)"
proof (cases "time_series = []")
  case True
  with assms show ?thesis by (simp add: find_buy_sell_dates_def reconstruct_def)
next
  case False
  then have ne: "ds \<noteq> []" using assms
    by (cases time_series) (auto split: sum.splits)
  then have sne: "sort ds \<noteq> []" by (metis length_sort length_0_conv)
  obtain f others where fm: "remdups_adj (sort ds) = f # others"
    using sne by (cases "remdups_adj (sort ds)") auto
  have hdf: "f = hd (sort ds)" using fm hd_remdups_adj[of "sort ds"] by simp
  have lst: "last (f # others) = last (sort ds)" using fm last_remdups_adj[of "sort ds"] by simp
  have sc: "scan_pairs (f # others) = scan_pairs (sort ds)"
    using fm scan_pairs_remdups_adj[of "sort ds"] by simp
  have G: "concat (map (gap_step (sort ds)) [0 ..< length ds - Suc 0]) = scan_pairs (sort ds)"
    using gap_loop_scan_pairs[of "sort ds"] by simp
  have L: "find_buy_sell_dates time_series =
      Inr ([bought (hd (sort ds))] @ scan_pairs (sort ds)
            @ (if last (sort ds) = REFERENCE_END_DATE then [] else [sold (last (sort ds))]))"
    using False assms sne
    by (simp add: find_buy_sell_dates_def Let_def G del: upt_Suc)
  have R: "reconstruct ds REFERENCE_END_DATE =
      [bought f] @ scan_pairs (f # others)
        @ (if last (f # others) = REFERENCE_END_DATE then [] else [sold (last (f # others))])"
    by (simp add: reconstruct_def sort_remdups_adj fm Let_def del: scan_pairs.simps last.simps)
  show ?thesis
    unfolding L R lst sc by (simp add: hdf)
qed

lemmas parse_eval =
  parse_timestamp_def split_T_0_def is_digit_def digit_val_def days_in_month_def is_leap_def

lemmas event_eval =
  bought_def sold_def digit_char_def days_between_def days_before_year_def
  days_before_month_def is_leap_def

theorem find_buy_sell_dates_reconstruct_witness:
  "find_buy_sell_dates
     [(''2025-01-01T00:00:00'', 1::int), (''2025-01-02T00:00:00'', 1),
      (''2025-01-02T12:00:00'', 1), (''2025-01-10T00:00:00'', 1)]
   = Inr [\<lparr>action = ''bought'', date = ''2025-01-01''\<rparr>,
          \<lparr>action = ''sold'', date = ''2025-01-02''\<rparr>,
          \<lparr>action = ''bought'', date = ''2025-01-10''\<rparr>,
          \<lparr>action = ''sold'', date = ''2025-01-10''\<rparr>]"
proof -
  have p: "parse_all (map fst
     [(''2025-01-01T00:00:00'', 1::int), (''2025-01-02T00:00:00'', 1),
      (''2025-01-02T12:00:00'', 1), (''2025-01-10T00:00:00'', 1)])
    = Inr [(2025, 1, 1), (2025, 1, 2), (2025, 1, 2), (2025, 1, 10)]"
    by (simp add: parse_eval)
  show ?thesis
    using find_buy_sell_dates_reconstruct [OF p]
    by (simp add: reconstruct_def REFERENCE_END_DATE_def event_eval)
qed

section \<open>Key order and date order agree on zero-padded keys\<close>

lemma date_leI1: "(a::nat) < a' \<Longrightarrow> (a, b::nat, c::nat) \<le> (a', b', c')"
  by simp
lemma date_leI2: "(a::nat) = a' \<Longrightarrow> (b::nat) < b' \<Longrightarrow> (a, b, c::nat) \<le> (a', b', c')"
  by simp
lemma date_leI3: "(a::nat) = a' \<Longrightarrow> (b::nat) = b' \<Longrightarrow> (c::nat) \<le> c' \<Longrightarrow> (a, b, c) \<le> (a', b', c')"
  by simp

lemma lex_nat_chain:
  fixes x1 x2 x3 x4 x5 x6 x7 x8 y1 y2 y3 y4 y5 y6 y7 y8 :: nat
  assumes bx: "x2 \<le> 9" "x3 \<le> 9" "x4 \<le> 9" "x6 \<le> 9" "x8 \<le> 9"
    and chain: "x1 < y1 \<or> x1 = y1 \<and> (x2 < y2 \<or> x2 = y2 \<and> (x3 < y3 \<or> x3 = y3 \<and>
      (x4 < y4 \<or> x4 = y4 \<and> (x5 < y5 \<or> x5 = y5 \<and> (x6 < y6 \<or> x6 = y6 \<and>
      (x7 < y7 \<or> x7 = y7 \<and> (x8 < y8 \<or> x8 = y8)))))))"
  shows "(1000 * x1 + 100 * x2 + 10 * x3 + x4, 10 * x5 + x6, 10 * x7 + x8)
       \<le> (1000 * y1 + 100 * y2 + 10 * y3 + y4, 10 * y5 + y6, 10 * y7 + y8)"
  using chain bx
  apply (elim disjE conjE)
          apply (rule date_leI1, linarith)
         apply (rule date_leI1, linarith)
        apply (rule date_leI1, linarith)
       apply (rule date_leI1, linarith)
      apply (rule date_leI2, linarith, linarith)
     apply (rule date_leI2, linarith, linarith)
    apply (rule date_leI3, linarith, linarith, linarith)
   apply (rule date_leI3, linarith, linarith, linarith)
  apply (rule date_leI3, linarith, linarith, linarith)
  done

lemma strptime_ymd_shape:
  assumes "strptime_ymd s = Inr d"
  obtains y1 y2 y3 y4 m1 m2 d1 d2 where
    "s = [y1, y2, y3, y4, CHR ''-'', m1, m2, CHR ''-'', d1, d2]"
    "is_digit y1" "is_digit y2" "is_digit y3" "is_digit y4"
    "is_digit m1" "is_digit m2" "is_digit d1" "is_digit d2"
    "d = (1000 * digit_val y1 + 100 * digit_val y2 + 10 * digit_val y3 + digit_val y4,
          10 * digit_val m1 + digit_val m2, 10 * digit_val d1 + digit_val d2)"
  using assms
  by (elim strptime_ymd.elims) (auto simp: Let_def split: if_splits)

lemma is_digit_bounds:
  "is_digit c \<Longrightarrow> 48 \<le> (of_char c :: nat) \<and> (of_char c :: nat) \<le> 57"
  by (simp add: is_digit_def less_eq_char_def)

lemma digit_val_le: "is_digit c \<Longrightarrow> digit_val c \<le> 9"
  using is_digit_bounds[of c] unfolding digit_val_def by linarith

lemma digit_less: "is_digit a \<Longrightarrow> is_digit b \<Longrightarrow> a < b \<longleftrightarrow> digit_val a < digit_val b"
  using is_digit_bounds[of a] is_digit_bounds[of b]
  unfolding digit_val_def less_char_def by linarith

lemma digit_eq: "is_digit a \<Longrightarrow> is_digit b \<Longrightarrow> a = b \<longleftrightarrow> digit_val a = digit_val b"
proof -
  assume a: "is_digit a" and b: "is_digit b"
  have "digit_val a = digit_val b \<longleftrightarrow> (of_char a :: nat) = of_char b"
    using is_digit_bounds[OF a] is_digit_bounds[OF b] unfolding digit_val_def by linarith
  then show ?thesis by simp
qed

lemma digit_le: "is_digit a \<Longrightarrow> is_digit b \<Longrightarrow> a \<le> b \<longleftrightarrow> digit_val a \<le> digit_val b"
  using is_digit_bounds[of a] is_digit_bounds[of b]
  unfolding digit_val_def less_eq_char_def by linarith

lemma strptime_ymd_mono:
  assumes "strptime_ymd p = Inr d" "strptime_ymd q = Inr e" "p \<le> q"
  shows "d \<le> e"
proof -
  from assms(1) obtain a1 a2 a3 a4 a5 a6 a7 a8 where
    p: "p = [a1, a2, a3, a4, CHR ''-'', a5, a6, CHR ''-'', a7, a8]"
    and pa: "is_digit a1" "is_digit a2" "is_digit a3" "is_digit a4"
       "is_digit a5" "is_digit a6" "is_digit a7" "is_digit a8"
    and d: "d = (1000 * digit_val a1 + 100 * digit_val a2 + 10 * digit_val a3 + digit_val a4,
          10 * digit_val a5 + digit_val a6, 10 * digit_val a7 + digit_val a8)"
    by (rule strptime_ymd_shape)
  from assms(2) obtain b1 b2 b3 b4 b5 b6 b7 b8 where
    q: "q = [b1, b2, b3, b4, CHR ''-'', b5, b6, CHR ''-'', b7, b8]"
    and qb: "is_digit b1" "is_digit b2" "is_digit b3" "is_digit b4"
       "is_digit b5" "is_digit b6" "is_digit b7" "is_digit b8"
    and e: "e = (1000 * digit_val b1 + 100 * digit_val b2 + 10 * digit_val b3 + digit_val b4,
          10 * digit_val b5 + digit_val b6, 10 * digit_val b7 + digit_val b8)"
    by (rule strptime_ymd_shape)
  have chain: "digit_val a1 < digit_val b1 \<or> digit_val a1 = digit_val b1 \<and>
     (digit_val a2 < digit_val b2 \<or> digit_val a2 = digit_val b2 \<and>
     (digit_val a3 < digit_val b3 \<or> digit_val a3 = digit_val b3 \<and>
     (digit_val a4 < digit_val b4 \<or> digit_val a4 = digit_val b4 \<and>
     (digit_val a5 < digit_val b5 \<or> digit_val a5 = digit_val b5 \<and>
     (digit_val a6 < digit_val b6 \<or> digit_val a6 = digit_val b6 \<and>
     (digit_val a7 < digit_val b7 \<or> digit_val a7 = digit_val b7 \<and>
     (digit_val a8 < digit_val b8 \<or> digit_val a8 = digit_val b8)))))))"
    using assms(3) unfolding p q
    by (simp only: Cons_le_Cons Cons_less_Cons less_irrefl simp_thms
        digit_less[OF pa(1) qb(1)] digit_eq[OF pa(1) qb(1)]
        digit_less[OF pa(2) qb(2)] digit_eq[OF pa(2) qb(2)]
        digit_less[OF pa(3) qb(3)] digit_eq[OF pa(3) qb(3)]
        digit_less[OF pa(4) qb(4)] digit_eq[OF pa(4) qb(4)]
        digit_less[OF pa(5) qb(5)] digit_eq[OF pa(5) qb(5)]
        digit_less[OF pa(6) qb(6)] digit_eq[OF pa(6) qb(6)]
        digit_less[OF pa(7) qb(7)] digit_eq[OF pa(7) qb(7)]
        digit_less[OF pa(8) qb(8)] digit_eq[OF pa(8) qb(8)])
       simp
  show ?thesis unfolding d e
    by (rule lex_nat_chain[OF pa(2,3,4,6,8)[THEN digit_val_le] chain])
qed

lemma lex_append_same_length:
  fixes p q :: "'a::linorder list"
  shows "length p = length q \<Longrightarrow> p @ r \<le> q @ s \<Longrightarrow> p \<le> q"
  by (induction p q rule: list_induct2) auto

lemma parse_timestamp_split:
  assumes "parse_timestamp a = Inr d"
  obtains p r where "a = p @ r" "length p = 10" "strptime_ymd p = Inr d"
proof -
  have "a = split_T_0 a @ dropWhile (\<lambda>c. c \<noteq> CHR ''T'') a"
    by (simp add: split_T_0_def)
  moreover have "strptime_ymd (split_T_0 a) = Inr d"
    using assms by (simp add: parse_timestamp_def)
  moreover from this have "length (split_T_0 a) = 10"
    by (elim strptime_ymd_shape) simp
  ultimately show ?thesis using that by blast
qed

lemma parse_timestamp_mono:
  assumes "parse_timestamp a = Inr d" "parse_timestamp b = Inr e" "a \<le> b"
  shows "d \<le> e"
proof -
  from assms(1) obtain p r where a: "a = p @ r" "length p = 10" "strptime_ymd p = Inr d"
    by (rule parse_timestamp_split)
  from assms(2) obtain q s where b: "b = q @ s" "length q = 10" "strptime_ymd q = Inr e"
    by (rule parse_timestamp_split)
  have "p \<le> q" using assms(3) a(1,2) b(1,2) lex_append_same_length[of p q r s] by simp
  then show ?thesis using a(3) b(3) strptime_ymd_mono by blast
qed

section \<open>Valuation engine: prices and profit\<close>

declare calc_loop.simps [simp del]

lemma settle_priced:
  assumes "settle b s (nav_at nav k) sn pp t ds = (t', ds')"
    and "find_timestamp_key b nav = Inr k"
  shows "\<exists>d. ds' = ds @ [d] \<and> t' = t + profit d \<and> priced_by_rule nav pp d"
  using assms by (auto simp: settle_def Let_def priced_by_rule_def split: option.splits)

lemma calc_loop_invariant:
  "calc_loop ts nav pp i t ds = Inr (t', ds') \<Longrightarrow>
     \<exists>new. ds' = ds @ new \<and> t' = foldl (+) t (map profit new)
       \<and> (\<forall>d\<in>set new. priced_by_rule nav pp d)"
proof (induction ts nav pp i t ds rule: calc_loop.induct)
  case (1 ts nav pp i t ds)
  show ?case
  proof (cases "i < length ts")
    case False
    with "1.prems" show ?thesis by (simp add: calc_loop.simps[of ts nav pp i])
  next
    case lt: True
    show ?thesis
    proof (cases "action (ts ! i) = ''bought''")
      case False
      with lt "1.prems" have "calc_loop ts nav pp (i + 1) t ds = Inr (t', ds')"
        by (simp add: calc_loop.simps[of ts nav pp i])
      with "1.IH"(3)[OF lt False] show ?thesis .
    next
      case b: True
      from lt b "1.prems" obtain buy_ts where
        buy: "find_timestamp_key (date (ts ! i)) nav = Inr buy_ts"
        by (cases "find_timestamp_key (date (ts ! i)) nav")
           (simp_all add: calc_loop.simps[of ts nav pp i])
      show ?thesis
      proof (cases "i + 1 < length ts \<and> action (ts ! (i + 1)) = ''sold''")
        case s: True
        from lt b buy s "1.prems" obtain sell_ts where
          sell: "find_timestamp_key (date (ts ! (i + 1))) nav = Inr sell_ts"
          by (cases "find_timestamp_key (date (ts ! (i + 1))) nav")
             (simp_all add: calc_loop.simps[of ts nav pp i])
        obtain t1 ds1 where st: "settle (date (ts ! i)) (date (ts ! (i + 1)))
            (nav_at nav buy_ts) (nav_at nav sell_ts) pp t ds = (t1, ds1)"
          by (cases "settle (date (ts ! i)) (date (ts ! (i + 1)))
            (nav_at nav buy_ts) (nav_at nav sell_ts) pp t ds") auto
        from lt b buy s sell st "1.prems" have rec: "calc_loop ts nav pp (i + 2) t1 ds1 = Inr (t', ds')"
          by (simp add: calc_loop.simps[of ts nav pp i])
        from "1.IH"(1)[OF lt b buy s sell st[symmetric] rec]
        obtain new where new: "ds' = ds1 @ new" "t' = foldl (+) t1 (map profit new)"
          "\<forall>d\<in>set new. priced_by_rule nav pp d" by blast
        from settle_priced[OF st buy] obtain d where
          d: "ds1 = ds @ [d]" "t1 = t + profit d" "priced_by_rule nav pp d" by blast
        show ?thesis
          by (rule exI[of _ "d # new"]) (use new d in simp)
      next
        case ns: False
        from lt b buy ns "1.prems" obtain sd sn where
          la: "last_available nav = Inr (sd, sn)"
          by (cases "last_available nav")
             (auto simp add: calc_loop.simps[of ts nav pp i])
        obtain t1 ds1 where st: "settle (date (ts ! i)) sd (nav_at nav buy_ts) sn pp t ds = (t1, ds1)"
          by (cases "settle (date (ts ! i)) sd (nav_at nav buy_ts) sn pp t ds") auto
        from lt b buy ns la st "1.prems" have rec: "calc_loop ts nav pp (i + 1) t1 ds1 = Inr (t', ds')"
          by (auto simp add: calc_loop.simps[of ts nav pp i])
        from "1.IH"(2)[OF lt b buy ns la refl st[symmetric] rec]
        obtain new where new: "ds' = ds1 @ new" "t' = foldl (+) t1 (map profit new)"
          "\<forall>d\<in>set new. priced_by_rule nav pp d" by blast
        from settle_priced[OF st buy] obtain d where
          d: "ds1 = ds @ [d]" "t1 = t + profit d" "priced_by_rule nav pp d" by blast
        show ?thesis
          by (rule exI[of _ "d # new"]) (use new d in simp)
      qed
    qed
  qed
qed

text \<open>
  C4. Whenever the engine returns, every detail record has: purchase price equal to the
  override exactly when the override is present and strictly greater than zero, and
  equal to the buy-date NAV reference value otherwise; selling price equal to purchase
  price plus profit; profit equal to sell reference value minus buy reference value;
  and the total profit is the sum of the profits, added in order from \<open>0.0\<close>.
\<close>

theorem prices_and_profit:
  fixes r :: "('n::{zero,plus,minus,ord}) profit_result"
  assumes "calculate_profit_and_prices asset_name transactions nav pp = Inr r"
  shows "(\<forall>d\<in>set (transactions_detail r).
            purchase_price d = (case pp of None \<Rightarrow> buy_nav d
                                | Some p \<Rightarrow> if p > 0 then p else buy_nav d)
          \<and> selling_price d = purchase_price d + profit d
          \<and> profit d = sell_nav d - buy_nav d
          \<and> (\<exists>k. find_timestamp_key (buy_date d) nav = Inr k \<and> buy_nav d = nav_at nav k))
       \<and> total_profit r = foldl (+) 0 (map profit (transactions_detail r))"
proof (cases "nav = []")
  case True
  with assms show ?thesis by (auto simp: calculate_profit_and_prices_def)
next
  case False
  with assms obtain t' ds' where
    loop: "calc_loop transactions nav pp 0 0 [] = Inr (t', ds')"
    and r: "r = \<lparr>asset = asset_name, total_profit = t', transactions_detail = ds', error = None\<rparr>"
    by (auto simp: calculate_profit_and_prices_def split: sum.splits)
  from calc_loop_invariant[OF loop] show ?thesis
    by (auto simp: r priced_by_rule_def)
qed

lemmas lookup_eval =
  find_timestamp_key_def nav_at_def dict_get_def last_available_def settle_def

theorem prices_and_profit_witness:
  "calculate_profit_and_prices ''A''
     [\<lparr>action = ''bought'', date = ''2025-01-01''\<rparr>,
      \<lparr>action = ''sold'', date = ''2025-01-02''\<rparr>,
      \<lparr>action = ''bought'', date = ''2025-01-10''\<rparr>]
     [(''2025-01-01T00:00:00'', 10::int), (''2025-01-12T00:00:00'', 30)] (Some 7)
   = Inr \<lparr>asset = ''A'', total_profit = 20,
      transactions_detail =
        [\<lparr>buy_date = ''2025-01-01'', sell_date = ''2025-01-02'', purchase_price = 7,
           selling_price = 7, buy_nav = 10, sell_nav = 10, profit = 0\<rparr>,
         \<lparr>buy_date = ''2025-01-10'', sell_date = ''2025-01-12'', purchase_price = 7,
           selling_price = 27, buy_nav = 10, sell_nav = 30, profit = 20\<rparr>],
      error = None\<rparr>
   \<and> (20::int) = foldl (+) 0 [0, 20]"
proof -
  have e: "calculate_profit_and_prices ''A''
     [\<lparr>action = ''bought'', date = ''2025-01-01''\<rparr>,
      \<lparr>action = ''sold'', date = ''2025-01-02''\<rparr>,
      \<lparr>action = ''bought'', date = ''2025-01-10''\<rparr>]
     [(''2025-01-01T00:00:00'', 10::int), (''2025-01-12T00:00:00'', 30)] (Some 7)
   = Inr \<lparr>asset = ''A'', total_profit = 20,
      transactions_detail =
        [\<lparr>buy_date = ''2025-01-01'', sell_date = ''2025-01-02'', purchase_price = 7,
           selling_price = 7, buy_nav = 10, sell_nav = 10, profit = 0\<rparr>,
         \<lparr>buy_date = ''2025-01-10'', sell_date = ''2025-01-12'', purchase_price = 7,
           selling_price = 27, buy_nav = 10, sell_nav = 30, profit = 20\<rparr>],
      error = None\<rparr>"
    by (simp add: calculate_profit_and_prices_def calc_loop.simps lookup_eval parse_eval
        digit_char_def)
  from prices_and_profit[OF e] e show ?thesis by simp
qed

section \<open>Valuation engine: the walk over the events\<close>

lemma calc_loop_pair_walk:
  "calc_loop ts nav pp i t ds = pair_walk (drop i ts) nav pp t ds"
proof (induction ts nav pp i t ds rule: calc_loop.induct)
  case (1 ts nav pp i t ds)
  show ?case
  proof (cases "i < length ts")
    case False
    then show ?thesis by (simp add: calc_loop.simps[of ts nav pp i])
  next
    case lt: True
    then have d: "drop i ts = ts ! i # drop (Suc i) ts"
      by (simp add: Cons_nth_drop_Suc)
    show ?thesis
    proof (cases "action (ts ! i) = ''bought''")
      case False
      with lt "1.IH"(3) show ?thesis
        by (simp add: calc_loop.simps[of ts nav pp i] d)
    next
      case b: True
      show ?thesis
      proof (cases "find_timestamp_key (date (ts ! i)) nav")
        case (Inl x)
        with lt b show ?thesis by (simp add: calc_loop.simps[of ts nav pp i] d)
      next
        case buy: (Inr buy_ts)
        show ?thesis
        proof (cases "Suc i < length ts")
          case False
          then have e: "drop (Suc i) ts = []" by simp
          show ?thesis
            using lt b buy False "1.IH"(2)[OF lt b buy]
            by (auto simp add: calc_loop.simps[of ts nav pp i] d e split: sum.splits prod.splits)
        next
          case lt2: True
          then have d2: "drop (Suc i) ts = ts ! Suc i # drop (Suc (Suc i)) ts"
            by (simp add: Cons_nth_drop_Suc)
          show ?thesis
          proof (cases "action (ts ! Suc i) = ''sold''")
            case True
            then show ?thesis
              using lt b buy lt2 "1.IH"(1)[OF lt b buy]
              by (auto simp add: calc_loop.simps[of ts nav pp i] d d2 split: sum.splits prod.splits)
          next
            case False
            then show ?thesis
              using lt b buy lt2 "1.IH"(2)[OF lt b buy]
              by (auto simp add: calc_loop.simps[of ts nav pp i] d d2 split: sum.splits prod.splits)
          qed
        qed
      qed
    qed
  qed
qed

lemma pair_walk_skip_sold:
  assumes "action s = ''sold''"
  shows "pre = [] \<or> action (last pre) \<noteq> ''bought'' \<Longrightarrow>
    pair_walk (pre @ s # post) nav pp t ds = pair_walk (pre @ post) nav pp t ds"
proof (induction pre arbitrary: t ds rule: induct_list012)
  case 1
  with assms show ?case by simp
next
  case (2 x)
  with assms show ?case by simp
next
  case (3 x y zs)
  have a: "zs = [] \<or> action (last zs) \<noteq> ''bought''" using 3(3) by (cases zs) auto
  have b: "action (last (y # zs)) \<noteq> ''bought''" using 3(3) by simp
  show ?case
    using "3.IH"(1)[OF a] "3.IH"(2) b
    by (auto split: sum.splits prod.splits)
qed

lemma pair_walk_no_bought:
  "\<forall>e\<in>set ts. action e \<noteq> ''bought'' \<Longrightarrow> pair_walk ts nav pp t ds = Inr (t, ds)"
  by (induction ts) auto

text \<open>
  C10. A \<open>sold\<close> event that does not directly follow a \<open>bought\<close> event (it is first,
  or the event before it is not \<open>bought\<close>) is skipped: the result is the one for the
  list without it, so it adds no detail record and nothing to the total profit. A list
  of \<open>sold\<close> events only gives total profit \<open>0.0\<close> and no detail record, and no
  exception.
\<close>

theorem sold_events_skipped:
  fixes nav :: "(string \<times> 'n::{zero,plus,minus,ord}) list"
  shows "(action s = ''sold'' \<and> (pre = [] \<or> action (last pre) \<noteq> ''bought'') \<longrightarrow>
            calculate_profit_and_prices asset_name (pre @ s # post) nav pp
              = calculate_profit_and_prices asset_name (pre @ post) nav pp)
       \<and> ((\<forall>e\<in>set transactions. action e = ''sold'') \<longrightarrow>
            (\<exists>err. calculate_profit_and_prices asset_name transactions nav pp
               = Inr \<lparr>asset = asset_name, total_profit = 0, transactions_detail = [],
                      error = err\<rparr>))"
proof (intro conjI impI)
  assume "action s = ''sold'' \<and> (pre = [] \<or> action (last pre) \<noteq> ''bought'')"
  then have "pair_walk (pre @ s # post) nav pp 0 [] = pair_walk (pre @ post) nav pp 0 []"
    using pair_walk_skip_sold[of s pre post nav pp 0 "[]"] by blast
  then show "calculate_profit_and_prices asset_name (pre @ s # post) nav pp
      = calculate_profit_and_prices asset_name (pre @ post) nav pp"
    by (simp add: calculate_profit_and_prices_def calc_loop_pair_walk)
next
  assume "\<forall>e\<in>set transactions. action e = ''sold''"
  then have "\<forall>e\<in>set transactions. action e \<noteq> ''bought''" by auto
  then have "pair_walk transactions nav pp 0 [] = Inr (0, [])"
    by (rule pair_walk_no_bought)
  then show "\<exists>err. calculate_profit_and_prices asset_name transactions nav pp
      = Inr \<lparr>asset = asset_name, total_profit = 0, transactions_detail = [], error = err\<rparr>"
    by (simp add: calculate_profit_and_prices_def calc_loop_pair_walk)
qed

theorem sold_events_skipped_witness:
  "calculate_profit_and_prices ''A''
     [\<lparr>action = ''sold'', date = ''2025-01-01''\<rparr>,
      \<lparr>action = ''bought'', date = ''2025-01-02''\<rparr>,
      \<lparr>action = ''sold'', date = ''2025-01-03''\<rparr>,
      \<lparr>action = ''sold'', date = ''2025-01-04''\<rparr>]
     [(''2025-01-02T00:00:00'', 10::int), (''2025-01-03T00:00:00'', 30)] None
   = calculate_profit_and_prices ''A''
     [\<lparr>action = ''sold'', date = ''2025-01-01''\<rparr>,
      \<lparr>action = ''bought'', date = ''2025-01-02''\<rparr>,
      \<lparr>action = ''sold'', date = ''2025-01-03''\<rparr>]
     [(''2025-01-02T00:00:00'', 10::int), (''2025-01-03T00:00:00'', 30)] None
   \<and> calculate_profit_and_prices ''A''
     [\<lparr>action = ''sold'', date = ''2025-01-01''\<rparr>,
      \<lparr>action = ''sold'', date = ''2025-01-04''\<rparr>]
     [(''2025-01-02T00:00:00'', 10::int), (''2025-01-03T00:00:00'', 30)] None
   = Inr \<lparr>asset = ''A'', total_profit = 0, transactions_detail = [], error = None\<rparr>"
  using sold_events_skipped
    [of "\<lparr>action = ''sold'', date = ''2025-01-04''\<rparr>"
        "[\<lparr>action = ''sold'', date = ''2025-01-01''\<rparr>,
          \<lparr>action = ''bought'', date = ''2025-01-02''\<rparr>,
          \<lparr>action = ''sold'', date = ''2025-01-03''\<rparr>]"
        "''A''" "[]" "[(''2025-01-02T00:00:00'', 10::int), (''2025-01-03T00:00:00'', 30)]" None
        "[\<lparr>action = ''sold'', date = ''2025-01-01''\<rparr>,
          \<lparr>action = ''sold'', date = ''2025-01-04''\<rparr>]"]
  by (simp add: calculate_profit_and_prices_def calc_loop_pair_walk lookup_eval parse_eval)

section \<open>Header resolution\<close>

lemmas header_eval =
  find_metric_indices_def index_step_def extract_volatility_index_def lower_def lower_char_def

text \<open>
  C5. Two headers that both contain \<open>volatility\<close>: \<open>extract_volatility_index\<close> binds the
  first one (index 0), \<open>extract_metrics_from_asset\<close> ends with the last one (index 1),
  because every matching header assigns \<open>metric_indices["volatility"]\<close> again.
\<close>

theorem volatility_rebound_by_later_header:
  "extract_volatility_index
     [HeaderDict None (Some ''volatility_1y''), HeaderDict None (Some ''volatility_3y'')] = Some 0
   \<and> map_of (find_metric_indices
        [HeaderDict None (Some ''volatility_1y''), HeaderDict None (Some ''volatility_3y'')])
        ''volatility'' = Some 1"
  by (simp add: header_eval)

text \<open>
  C6. On the headers of the specification's example, \<open>price\<close> resolves to index 1 and
  \<open>purchase_price\<close> to index 0. A header that matches the purchase-price test through
  \<open>buy\<close> alone is not excluded from \<open>price\<close>: for the single header \<open>buy_price\<close> both
  metrics resolve to index 0.
\<close>

theorem price_not_excluded_for_buy:
  "map_of (find_metric_indices
      [HeaderDict None (Some ''purchase_price''), HeaderDict None (Some ''price'')]) ''price''
     = Some 1
   \<and> map_of (find_metric_indices
      [HeaderDict None (Some ''purchase_price''), HeaderDict None (Some ''price'')])
      ''purchase_price'' = Some 0
   \<and> map_of (find_metric_indices [HeaderDict None (Some ''buy_price'')]) ''purchase_price''
     = Some 0
   \<and> map_of (find_metric_indices [HeaderDict None (Some ''buy_price'')]) ''price'' = Some 0"
  by (simp add: header_eval)

section \<open>Time-series extraction\<close>

lemma first_time_series_find:
  "first_time_series vs =
     (case List.find is_time_series_cell vs of
        None \<Rightarrow> None
      | Some c \<Rightarrow> (case rawValue c of PDict raw_value \<Rightarrow> Some raw_value | _ \<Rightarrow> None))"
  by (induction vs rule: first_time_series.induct) simp_all

lemma is_time_series_cell_iff:
  "is_time_series_cell c \<longleftrightarrow>
     (\<exists>k x rest v cmd. c = CellDict (PDict ((k, x) # rest)) v cmd
        \<and> k \<noteq> [] \<and> py_in ''T'' k \<and> is_number x)"
proof (cases c rule: is_time_series_cell.cases)
  case (1 raw_value v cmd)
  then show ?thesis by (cases raw_value) auto
qed auto

text \<open>
  C8, as the code has it. The extraction returns the \<open>rawValue\<close> of the first cell of
  the line that is a dictionary whose \<open>rawValue\<close> is a non-empty dictionary with a
  non-empty first key containing \<open>T\<close> and a number as first value, and \<open>None\<close> when
  there is no such cell. Only the first key and the first value are looked at.
\<close>

theorem extract_time_series_samples_first_entry:
  "extract_asset_time_series asset_data =
     (case List.find is_time_series_cell (line_values asset_data) of
        None \<Rightarrow> None
      | Some c \<Rightarrow> (case rawValue c of PDict raw_value \<Rightarrow> Some raw_value | _ \<Rightarrow> None))
   \<and> (is_time_series_cell c \<longleftrightarrow>
        (\<exists>k x rest v cmd. c = CellDict (PDict ((k, x) # rest)) v cmd
           \<and> k \<noteq> [] \<and> py_in ''T'' k \<and> is_number x))"
  using first_time_series_find[of "line_values asset_data"] is_time_series_cell_iff[of c]
  by (simp add: extract_asset_time_series_def)

text \<open>
  A \<open>rawValue\<close> with a second key that is no timestamp and a second value that is no
  number is returned all the same.
\<close>

theorem extract_time_series_counterexample:
  "extract_asset_time_series
     (Line (Some ''A'')
        [CellDict (PDict [(''2025-01-01T00:00:00'', PInt 1), (''note'', PStr ''n/a'')])
           PNone None] [])
     = Some [(''2025-01-01T00:00:00'', PInt 1), (''note'', PStr ''n/a'')]
   \<and> parse_timestamp ''note'' = Inl ValueError
   \<and> \<not> is_number (PStr ''n/a'')"
  by (simp add: extract_asset_time_series_def parse_eval)

section \<open>The tree walk\<close>


















section \<open>Nearest-past-date lookup\<close>

lemma sorted_key_dates:
  assumes "\<forall>k\<in>set ks. \<exists>d. parse_timestamp k = Inr d" "sorted ks"
  shows "sorted (map key_date ks)"
  using assms
proof (induction ks)
  case Nil
  show ?case by simp
next
  case (Cons k ks)
  have "key_date k \<le> key_date k'" if "k' \<in> set ks" for k'
  proof -
    from Cons.prems that obtain d d' where
      "parse_timestamp k = Inr d" "parse_timestamp k' = Inr d'" "k \<le> k'" by auto
    then show ?thesis using parse_timestamp_mono[of k d k' d'] by (simp add: key_date_def)
  qed
  with Cons show ?case by auto
qed

lemma find_loop_result:
  assumes "\<forall>k\<in>set ks. \<exists>d. parse_timestamp k = Inr d" "sorted (map key_date ks)"
  shows "find_loop target best ks =
     Inr (case List.find (\<lambda>k. key_date k = target) ks of
            Some k \<Rightarrow> Some k
          | None \<Rightarrow> (case filter (\<lambda>k. key_date k < target) ks of
                       [] \<Rightarrow> best
                     | b # bs \<Rightarrow> Some (last (b # bs))))"
  using assms
proof (induction ks arbitrary: best)
  case Nil
  show ?case by simp
next
  case (Cons k ks)
  from Cons.prems obtain d where d: "parse_timestamp k = Inr d" by auto
  then have kd: "key_date k = d" by (simp add: key_date_def)
  have IH: "find_loop target b ks =
     Inr (case List.find (\<lambda>k. key_date k = target) ks of
            Some k \<Rightarrow> Some k
          | None \<Rightarrow> (case filter (\<lambda>k. key_date k < target) ks of
                       [] \<Rightarrow> b
                     | b # bs \<Rightarrow> Some (last (b # bs))))" for b
    using Cons.IH[of b] Cons.prems by simp
  consider (eq) "d = target" | (lt) "d < target" | (gt) "target < d"
    using less_linear by blast
  then show ?case
  proof cases
    case eq
    then show ?thesis by (simp add: d kd)
  next
    case lt
    then have ne: "d \<noteq> target" "\<not> target < d" by auto
    show ?thesis
      using lt ne
      by (simp add: d kd IH split: option.splits list.splits)
  next
    case gt
    then have ne: "d \<noteq> target" "\<not> d < target" by auto
    have later: "target < key_date k'" if "k' \<in> set ks" for k'
      using Cons.prems(2) that gt kd by auto
    have f: "List.find (\<lambda>k. key_date k = target) ks = None"
      using later by (auto simp: find_None_iff)
    have "\<not> key_date k' < target" if "k' \<in> set ks" for k'
      using later[OF that] by (simp add: not_less order.strict_implies_order)
    then have g: "filter (\<lambda>k. key_date k < target) ks = []"
      by (simp add: filter_empty_conv)
    show ?thesis
      using gt ne by (simp add: d kd f g)
  qed
qed

lemma find_timestamp_key_result:
  assumes "strptime_ymd date_str = Inr target"
    and "\<forall>k\<in>fst ` set nav. \<exists>d. parse_timestamp k = Inr d"
  shows "find_timestamp_key date_str nav =
     Inr (case List.find (\<lambda>k. key_date k = target) (sort (map fst nav)) of
            Some k \<Rightarrow> Some k
          | None \<Rightarrow> (case filter (\<lambda>k. key_date k < target) (sort (map fst nav)) of
                       [] \<Rightarrow> None
                     | b # bs \<Rightarrow> Some (last (b # bs))))"
proof -
  have p: "\<forall>k\<in>set (sort (map fst nav)). \<exists>d. parse_timestamp k = Inr d"
    using assms(2) by simp
  have s: "sorted (map key_date (sort (map fst nav)))"
    by (rule sorted_key_dates[OF p]) simp
  show ?thesis
    by (simp add: find_timestamp_key_def assms(1) find_loop_result[OF p s])
qed




lemma last_available_returns:
  assumes "nav \<noteq> []" "\<forall>k\<in>fst ` set nav. \<exists>d. parse_timestamp k = Inr d"
  shows "\<exists>k v. last_available nav = Inr (strftime_ymd (key_date k), v)
     \<and> k = last (sort (map fst nav)) \<and> (k, v) \<in> set nav"
proof -
  let ?k = "last (sort (map fst nav))"
  have ne: "sort (map fst nav) \<noteq> []" using assms(1) by (metis length_sort length_0_conv map_is_Nil_conv)
  then have "?k \<in> set (sort (map fst nav))" by (rule last_in_set)
  then have kin: "?k \<in> fst ` set nav" by simp
  with assms(2) obtain d where d: "parse_timestamp ?k = Inr d" by blast
  from kin obtain v where v: "map_of nav ?k = Some v"
    by (metis domD dom_map_of_conv_image_fst)
  have "(?k, v) \<in> set nav" using v by (rule map_of_SomeD)
  then show ?thesis using ne d v by (simp add: last_available_def key_date_def)
qed



lemma sorted_le_last: "sorted xs \<Longrightarrow> x \<in> set xs \<Longrightarrow> x \<le> last xs"
  by (induction xs) (auto split: if_splits)



section \<open>Valuation engine: the pairing rule\<close>

lemma settle_make_detail:
  "settle b s bn sn pp t ds
     = (t + profit (make_detail b s bn sn pp), ds @ [make_detail b s bn sn pp])"
  by (simp add: settle_def make_detail_def Let_def)

lemma calc_loop_closed:
  assumes fk: "\<forall>e\<in>set ts. \<exists>k. find_timestamp_key (date e) nav = Inr k"
    and la: "last_available nav = Inr (sd, sn)"
  shows "calc_loop ts nav pp i t ds =
     Inr (foldl (+) t (map profit (map (detail_at ts nav pp sd sn)
              (filter (\<lambda>j. action (ts ! j) = ''bought'') [i ..< length ts]))),
          ds @ map (detail_at ts nav pp sd sn)
              (filter (\<lambda>j. action (ts ! j) = ''bought'') [i ..< length ts]))"
  using assms
proof (induction ts nav pp i t ds rule: calc_loop.induct)
  case (1 ts nav pp i t ds)
  note fk = "1.prems"(1) and la = "1.prems"(2)
  show ?case
  proof (cases "i < length ts")
    case False
    then show ?thesis by (simp add: calc_loop.simps[of ts nav pp i])
  next
    case lt: True
    then have u: "[i ..< length ts] = i # [Suc i ..< length ts]"
      by (simp add: upt_conv_Cons)
    show ?thesis
    proof (cases "action (ts ! i) = ''bought''")
      case False
      with lt "1.IH"(3)[OF lt False fk la] show ?thesis
        by (simp add: calc_loop.simps[of ts nav pp i] u del: upt_Suc)
    next
      case b: True
      from fk lt obtain kb where kb: "find_timestamp_key (date (ts ! i)) nav = Inr kb"
        using nth_mem by blast
      have rb: "ref_value nav (date (ts ! i)) = nav_at nav kb"
        unfolding ref_value_def kb by simp
      show ?thesis
      proof (cases "i + 1 < length ts \<and> action (ts ! (i + 1)) = ''sold''")
        case s: True
        then have sf: "sold_follows ts i" by (simp add: sold_follows_def)
        from fk s obtain ks where ks: "find_timestamp_key (date (ts ! (i + 1))) nav = Inr ks"
          using nth_mem by blast
        have rs: "ref_value nav (date (ts ! Suc i)) = nav_at nav ks"
          using ks unfolding ref_value_def by simp
        let ?D = "make_detail (date (ts ! i)) (date (ts ! (i + 1))) (nav_at nav kb)
            (nav_at nav ks) pp"
        have D: "detail_at ts nav pp sd sn i = ?D"
          using sf by (simp add: detail_at_def rb rs)
        have u2: "[Suc i ..< length ts] = Suc i # [Suc (Suc i) ..< length ts]"
          using s by (simp add: upt_conv_Cons)
        have nb: "action (ts ! Suc i) \<noteq> ''bought''" using s by simp
        have st: "(t + profit ?D, ds @ [?D]) = settle (date (ts ! i)) (date (ts ! (i + 1)))
            (nav_at nav kb) (nav_at nav ks) pp t ds"
          by (simp add: settle_make_detail)
        have rec: "calc_loop ts nav pp i t ds
            = calc_loop ts nav pp (i + 2) (t + profit ?D) (ds @ [?D])"
          using lt b kb s ks by (simp add: calc_loop.simps[of ts nav pp i] settle_make_detail)
        show ?thesis
          unfolding rec "1.IH"(1)[OF lt b kb s ks st fk la]
          using b nb by (simp add: u u2 D del: upt_Suc)
      next
        case ns: False
        then have sf: "\<not> sold_follows ts i" by (simp add: sold_follows_def)
        let ?D = "make_detail (date (ts ! i)) sd (nav_at nav kb) sn pp"
        have D: "detail_at ts nav pp sd sn i = ?D"
          using sf by (simp add: detail_at_def rb)
        have st: "(t + profit ?D, ds @ [?D]) = settle (date (ts ! i)) sd (nav_at nav kb) sn pp t ds"
          by (simp add: settle_make_detail)
        have rec: "calc_loop ts nav pp i t ds
            = calc_loop ts nav pp (i + 1) (t + profit ?D) (ds @ [?D])"
          using lt b kb ns la
          by (auto simp add: calc_loop.simps[of ts nav pp i] settle_make_detail)
        show ?thesis
          unfolding rec "1.IH"(2)[OF lt b kb ns la refl st fk la]
          using b by (simp add: u D del: upt_Suc)
      qed
    qed
  qed
qed

lemma events_used_increasing:
  "sorted_wrt (<) (concat (map (events_used ts)
       (filter (\<lambda>j. action (ts ! j) = ''bought'') [i ..< n])))
   \<and> (\<forall>x\<in>set (concat (map (events_used ts)
       (filter (\<lambda>j. action (ts ! j) = ''bought'') [i ..< n]))). i \<le> x)"
proof -
  define E where "E a = concat (map (events_used ts)
       (filter (\<lambda>j. action (ts ! j) = ''bought'') [a ..< n]))" for a
  have E_end: "E a = []" if "\<not> a < n" for a
    using that by (simp add: E_def)
  have E_step: "E a = (if action (ts ! a) = ''bought'' then events_used ts a else []) @ E (Suc a)"
    if "a < n" for a
    using that by (simp add: E_def upt_conv_Cons del: upt_Suc)
  have "sorted_wrt (<) (E i) \<and> (\<forall>x\<in>set (E i). i \<le> x)"
  proof (induction "n - i" arbitrary: i rule: less_induct)
    case less
    show ?case
    proof (cases "i < n")
      case False
      then show ?thesis by (simp add: E_end)
    next
      case lt: True
      have IH1: "sorted_wrt (<) (E (Suc i))" and IH1': "\<forall>x\<in>set (E (Suc i)). Suc i \<le> x"
        using less[of "Suc i"] lt by simp_all
      from IH1' have ge: "\<forall>x\<in>set (E (Suc i)). i < x" by auto
      show ?thesis
      proof (cases "action (ts ! i) = ''bought''")
        case False
        then have "E i = E (Suc i)" by (simp add: E_step[OF lt])
        then show ?thesis using IH1 ge by (simp add: less_imp_le)
      next
        case b: True
        show ?thesis
        proof (cases "sold_follows ts i")
          case False
          then have "E i = i # E (Suc i)" using b by (simp add: E_step[OF lt] events_used_def)
          then show ?thesis using IH1 ge by (simp add: less_imp_le)
        next
          case sf: True
          then have nb: "action (ts ! Suc i) \<noteq> ''bought''" by (simp add: sold_follows_def)
          have Ei: "E i = i # Suc i # E (Suc i)"
            using b sf by (simp add: E_step[OF lt] events_used_def)
          show ?thesis
          proof (cases "Suc i < n")
            case False
            then show ?thesis by (simp add: Ei E_end)
          next
            case lt2: True
            have E2: "E (Suc i) = E (Suc (Suc i))" using nb by (simp add: E_step[OF lt2])
            have IH2: "sorted_wrt (<) (E (Suc (Suc i)))"
              and IH2': "\<forall>x\<in>set (E (Suc (Suc i))). Suc (Suc i) \<le> x"
              using less[of "Suc (Suc i)"] lt2 by simp_all
            from IH2' have "\<forall>x\<in>set (E (Suc (Suc i))). Suc i < x \<and> i < x" by auto
            then show ?thesis using IH2 by (simp add: Ei E2 less_imp_le)
          qed
        qed
      qed
    qed
  qed
  then show ?thesis by (simp add: E_def)
qed

lemma last_sorted_Max: "sorted xs \<Longrightarrow> xs \<noteq> [] \<Longrightarrow> last xs = Max (set xs)"
  by (metis List.finite_set Max_eqI last_in_set sorted_le_last)

text \<open>
  C2. With a non-empty NAV series whose keys parse and events whose dates parse, the
  engine returns one detail record for every \<open>bought\<close> event, in order. The record of
  the \<open>bought\<close> event at position \<open>i\<close> is paired with the \<open>sold\<close> event at \<open>i + 1\<close> when
  there is one (its date, and the NAV reference value at that date); otherwise with a
  synthetic sell at the last available NAV date, with a NAV value stored at that date.
  The positions used by the pairs are pairwise distinct: no event is in two pairs.
\<close>

theorem bought_paired_with_next_sold:
  fixes nav :: "(string \<times> 'n::{zero,plus,minus,ord}) list"
  assumes ne: "nav \<noteq> []"
    and keys: "\<forall>k\<in>fst ` set nav. \<exists>d. parse_timestamp k = Inr d"
    and dates: "\<forall>e\<in>set ts. \<exists>d. strptime_ymd (date e) = Inr d"
  shows "\<exists>res. calculate_profit_and_prices asset_name ts nav pp = Inr res
     \<and> length (transactions_detail res) = length (bought_indices ts)
     \<and> (\<forall>j<length (bought_indices ts).
          buy_date (transactions_detail res ! j) = date (ts ! (bought_indices ts ! j))
        \<and> (sold_follows ts (bought_indices ts ! j) \<longrightarrow>
             sell_date (transactions_detail res ! j) = date (ts ! (bought_indices ts ! j + 1))
           \<and> sell_nav (transactions_detail res ! j)
               = ref_value nav (date (ts ! (bought_indices ts ! j + 1))))
        \<and> (\<not> sold_follows ts (bought_indices ts ! j) \<longrightarrow>
             sell_date (transactions_detail res ! j)
               = strftime_ymd (Max (key_date ` fst ` set nav))
           \<and> (\<exists>k. (k, sell_nav (transactions_detail res ! j)) \<in> set nav
                 \<and> key_date k = Max (key_date ` fst ` set nav))))
     \<and> distinct (concat (map (events_used ts) (bought_indices ts)))"
proof -
  from last_available_returns[OF ne keys] obtain k v where
    la: "last_available nav = Inr (strftime_ymd (key_date k), v)"
    and k: "k = last (sort (map fst nav))" and kv: "(k, v) \<in> set nav" by blast
  have sne: "sort (map fst nav) \<noteq> []" using ne by (metis length_sort length_0_conv map_is_Nil_conv)
  have sd: "sorted (map key_date (sort (map fst nav)))"
    by (rule sorted_key_dates) (use keys in simp_all)
  have "key_date k = last (map key_date (sort (map fst nav)))"
    using sne by (simp add: k last_map)
  also have "\<dots> = Max (set (map key_date (sort (map fst nav))))"
    using sd sne by (intro last_sorted_Max) simp_all
  also have "\<dots> = Max (key_date ` fst ` set nav)" by simp
  finally have mx: "key_date k = Max (key_date ` fst ` set nav)" .
  have fk: "\<forall>e\<in>set ts. \<exists>k. find_timestamp_key (date e) nav = Inr k"
  proof
    fix e assume "e \<in> set ts"
    with dates obtain d where "strptime_ymd (date e) = Inr d" by blast
    from find_timestamp_key_result[OF this keys]
    show "\<exists>k. find_timestamp_key (date e) nav = Inr k" by blast
  qed
  let ?ds = "map (detail_at ts nav pp (strftime_ymd (key_date k)) v) (bought_indices ts)"
  let ?res = "\<lparr>asset = asset_name, total_profit = foldl (+) 0 (map profit ?ds),
     transactions_detail = ?ds, error = None\<rparr>"
  have res: "calculate_profit_and_prices asset_name ts nav pp = Inr ?res"
    using ne calc_loop_closed[OF fk la, of pp 0 0 "[]"]
    by (simp add: calculate_profit_and_prices_def bought_indices_def)
  have sel: "transactions_detail ?res = ?ds" by simp
  have per: "buy_date (transactions_detail ?res ! j) = date (ts ! (bought_indices ts ! j))
        \<and> (sold_follows ts (bought_indices ts ! j) \<longrightarrow>
             sell_date (transactions_detail ?res ! j) = date (ts ! (bought_indices ts ! j + 1))
           \<and> sell_nav (transactions_detail ?res ! j)
               = ref_value nav (date (ts ! (bought_indices ts ! j + 1))))
        \<and> (\<not> sold_follows ts (bought_indices ts ! j) \<longrightarrow>
             sell_date (transactions_detail ?res ! j)
               = strftime_ymd (Max (key_date ` fst ` set nav))
           \<and> (\<exists>k. (k, sell_nav (transactions_detail ?res ! j)) \<in> set nav
                 \<and> key_date k = Max (key_date ` fst ` set nav)))"
    if "j < length (bought_indices ts)" for j
    unfolding sel using that kv mx by (auto simp add: detail_at_def make_detail_def)
  have len: "length (transactions_detail ?res) = length (bought_indices ts)"
    unfolding sel by simp
  have dist: "distinct (concat (map (events_used ts) (bought_indices ts)))"
    using events_used_increasing[of ts 0 "length ts"]
    by (simp add: bought_indices_def strict_sorted_iff)
  show ?thesis
    apply (rule exI[of _ ?res])
    apply (rule conjI, rule res)
    apply (rule conjI, rule len)
    apply (rule conjI)
     apply (intro allI impI)
     apply (erule per)
    apply (rule dist)
    done
qed

theorem bought_paired_with_next_sold_witness:
  "calculate_profit_and_prices ''A''
     [\<lparr>action = ''bought'', date = ''2025-01-01''\<rparr>,
      \<lparr>action = ''sold'', date = ''2025-01-02''\<rparr>,
      \<lparr>action = ''bought'', date = ''2025-01-10''\<rparr>]
     [(''2025-01-12T00:00:00'', 30::int), (''2025-01-01T00:00:00'', 10)] None
   = Inr \<lparr>asset = ''A'', total_profit = 20,
      transactions_detail =
        [\<lparr>buy_date = ''2025-01-01'', sell_date = ''2025-01-02'', purchase_price = 10,
           selling_price = 10, buy_nav = 10, sell_nav = 10, profit = 0\<rparr>,
         \<lparr>buy_date = ''2025-01-10'', sell_date = ''2025-01-12'', purchase_price = 10,
           selling_price = 30, buy_nav = 10, sell_nav = 30, profit = 20\<rparr>],
      error = None\<rparr>
   \<and> bought_indices
     [\<lparr>action = ''bought'', date = ''2025-01-01''\<rparr>,
      \<lparr>action = ''sold'', date = ''2025-01-02''\<rparr>,
      \<lparr>action = ''bought'', date = ''2025-01-10''\<rparr>] = [0, 2]"
proof -
  have n: "[(''2025-01-12T00:00:00'', 30::int), (''2025-01-01T00:00:00'', 10)] \<noteq> []" by simp
  have k: "\<forall>k\<in>fst ` set [(''2025-01-12T00:00:00'', 30::int), (''2025-01-01T00:00:00'', 10)].
      \<exists>d. parse_timestamp k = Inr d"
    by (simp add: parse_eval)
  have d: "\<forall>e\<in>set [\<lparr>action = ''bought'', date = ''2025-01-01''\<rparr>,
      \<lparr>action = ''sold'', date = ''2025-01-02''\<rparr>,
      \<lparr>action = ''bought'', date = ''2025-01-10''\<rparr>]. \<exists>d. strptime_ymd (date e) = Inr d"
    by (simp add: parse_eval)
  have e: "calculate_profit_and_prices ''A''
     [\<lparr>action = ''bought'', date = ''2025-01-01''\<rparr>,
      \<lparr>action = ''sold'', date = ''2025-01-02''\<rparr>,
      \<lparr>action = ''bought'', date = ''2025-01-10''\<rparr>]
     [(''2025-01-12T00:00:00'', 30::int), (''2025-01-01T00:00:00'', 10)] None
   = Inr \<lparr>asset = ''A'', total_profit = 20,
      transactions_detail =
        [\<lparr>buy_date = ''2025-01-01'', sell_date = ''2025-01-02'', purchase_price = 10,
           selling_price = 10, buy_nav = 10, sell_nav = 10, profit = 0\<rparr>,
         \<lparr>buy_date = ''2025-01-10'', sell_date = ''2025-01-12'', purchase_price = 10,
           selling_price = 30, buy_nav = 10, sell_nav = 30, profit = 20\<rparr>],
      error = None\<rparr>"
    by (simp add: calculate_profit_and_prices_def calc_loop.simps lookup_eval parse_eval
        digit_char_def)
  have b: "bought_indices
     [\<lparr>action = ''bought'', date = ''2025-01-01''\<rparr>,
      \<lparr>action = ''sold'', date = ''2025-01-02''\<rparr>,
      \<lparr>action = ''bought'', date = ''2025-01-10''\<rparr>] = [0, 2]"
    by (simp add: bought_indices_def upt_rec)
  from bought_paired_with_next_sold[OF n k d, of "''A''" None] obtain res where
    "calculate_profit_and_prices ''A''
     [\<lparr>action = ''bought'', date = ''2025-01-01''\<rparr>,
      \<lparr>action = ''sold'', date = ''2025-01-02''\<rparr>,
      \<lparr>action = ''bought'', date = ''2025-01-10''\<rparr>]
     [(''2025-01-12T00:00:00'', 30::int), (''2025-01-01T00:00:00'', 10)] None = Inr res"
    and l: "length (transactions_detail res) = length (bought_indices
     [\<lparr>action = ''bought'', date = ''2025-01-01''\<rparr>,
      \<lparr>action = ''sold'', date = ''2025-01-02''\<rparr>,
      \<lparr>action = ''bought'', date = ''2025-01-10''\<rparr>])"
    by blast
  with e b show ?thesis by simp
qed

end
